theory Spec2Isabelle
  imports Main
begin

section \<open>Pattern engine (pattern.c)\<close>

text \<open>
  The C code represents a pattern as a struct whose first two fields are the function
  pointers \<open>match\<close> and \<open>destroy\<close>. Two concrete structs exist: \<open>SymbolPattern\<close> (field
  \<open>sym\<close>, match function \<open>matchSymbolPattern\<close>) and \<open>BinaryPattern\<close> (fields \<open>p1\<close>, \<open>p2\<close>),
  which \<open>makeConcatenationPattern\<close> always equips with \<open>matchConcatenationPattern\<close>.
  The closed set of structs is a datatype; calling \<open>pat->match\<close> is the function \<open>match\<close>
  below, which selects the body by constructor.
\<close>

datatype Pattern =
    SymbolPattern char
  | ConcatenationPattern Pattern Pattern

definition makeSymbolPattern :: "char \<Rightarrow> Pattern" where
  "makeSymbolPattern symb = SymbolPattern symb"

definition makeConcatenationPattern :: "Pattern \<Rightarrow> Pattern \<Rightarrow> Pattern" where
  "makeConcatenationPattern p1 p2 = ConcatenationPattern p1 p2"

text \<open>
  A C string is modelled as the list of its characters without the terminating NUL;
  \<open>cstr_at\<close> is the read \<open>str[i]\<close>, which yields the NUL at index \<open>strlen(str)\<close>.
  Reads beyond the terminator are undefined in C and are never made by the code below.
\<close>

definition cstr_at :: "string \<Rightarrow> nat \<Rightarrow> char" where
  "cstr_at str i = (if i < length str then str ! i else CHR 0x00)"

text \<open>
  \<open>matchSymbolPattern\<close>: the \<open>for\<close> loop of lines 55-56, with the output array \<open>after\<close>
  passed through explicitly. \<open>len\<close> and the index are non-negative (\<open>len\<close> is always
  \<open>strlen(str)\<close> in the callers). The arrays \<open>before\<close> and \<open>after\<close> are distinct
  objects at every call site. A write \<open>after[i + 1]\<close> needs \<open>i + 1 < length after\<close>;
  every theorem below assumes an output array of \<open>len + 1\<close> cells, as the callers provide.
\<close>

function matchSymbolLoop ::
  "char \<Rightarrow> nat \<Rightarrow> string \<Rightarrow> bool list \<Rightarrow> nat \<Rightarrow> bool list \<Rightarrow> bool list" where
  "matchSymbolLoop symb len str before i after =
     (if i < len
      then matchSymbolLoop symb len str before (Suc i)
             (after[i + 1 := (before ! i \<and> cstr_at str i = symb)])
      else after)"
  by pat_completeness auto
termination
  by (relation "measure (\<lambda>(symb, len, str, before, i, after). len - i)") auto

definition matchSymbolPattern ::
  "char \<Rightarrow> nat \<Rightarrow> string \<Rightarrow> bool list \<Rightarrow> bool list \<Rightarrow> bool list" where
  "matchSymbolPattern symb len str before after =
     matchSymbolLoop symb len str before 0 (after[0 := False])"

text \<open>
  \<open>match\<close> is the virtual call \<open>pat->match(pat, len, str, before, after)\<close>; its result is the
  content of \<open>after\<close> on return. The second equation is \<open>matchConcatenationPattern\<close>:
  \<open>midMarks\<close> is a fresh local array of \<open>len + 1\<close> cells. C leaves it uninitialised; the
  model fills it with \<open>False\<close>, and \<open>match_after_irrelevant\<close> below shows that the initial
  content of an output array never reaches the result.
\<close>

fun match :: "Pattern \<Rightarrow> nat \<Rightarrow> string \<Rightarrow> bool list \<Rightarrow> bool list \<Rightarrow> bool list" where
  "match (SymbolPattern symb) len str before after =
     matchSymbolPattern symb len str before after"
| "match (ConcatenationPattern p1 p2) len str before after =
     (let midMarks = match p1 len str before (replicate (len + 1) False)
      in match p2 len str midMarks after)"

text \<open>
  \<open>reportMarks\<close>: the text written to standard output. The loop of lines 9-12 returns
  the final index together with the text printed so far.
\<close>

function reportMarksLoop :: "string \<Rightarrow> bool list \<Rightarrow> nat \<Rightarrow> string \<Rightarrow> nat \<times> string" where
  "reportMarksLoop str marks i out =
     (if cstr_at str i \<noteq> CHR 0x00
      then reportMarksLoop str marks (Suc i)
             (out @ [if marks ! i then CHR ''*'' else CHR '' '', cstr_at str i])
      else (i, out))"
  by pat_completeness auto
termination
  by (relation "measure (\<lambda>(str, marks, i, out). length str - i)")
     (auto simp: cstr_at_def split: if_splits)

definition reportMarks :: "string \<Rightarrow> bool list \<Rightarrow> string" where
  "reportMarks str marks =
     (case reportMarksLoop str marks 0 [] of
        (i, out) \<Rightarrow> out @ [if marks ! i then CHR ''*'' else CHR '' '', CHR 0x0A])"

section \<open>Pattern parser (mygrep.c)\<close>

text \<open>
  \<open>invalidPattern\<close> prints the fixed diagnostic and calls \<open>exit\<close>; the same two statements
  appear inline in \<open>main\<close>. Leaving the program this way is the error value
  \<open>InvalidPattern\<close>, and a parsing function returns either that error or the pattern
  together with the advanced cursor \<open>*pos\<close>.
\<close>

datatype error = InvalidPattern

text \<open>
  The library function \<open>strchr(s, c)\<close>: the offset of the first occurrence of \<open>c\<close> in
  \<open>s\<close>, where the terminating NUL counts as part of the string, or no result (the null
  pointer).
\<close>

fun strchr :: "string \<Rightarrow> char \<Rightarrow> nat option" where
  "strchr [] c = (if c = CHR 0x00 then Some 0 else None)"
| "strchr (x # xs) c = (if x = c then Some 0 else map_option Suc (strchr xs c))"

definition ordinary :: "char \<Rightarrow> bool" where
  "ordinary c = (case strchr ''.^$*?+|()[{'' c of Some _ \<Rightarrow> False | None \<Rightarrow> True)"

definition parseAtomicPattern :: "string \<Rightarrow> nat \<Rightarrow> error + (Pattern \<times> nat)" where
  "parseAtomicPattern str pos =
     (if ordinary (cstr_at str pos)
      then Inr (makeSymbolPattern (cstr_at str pos), pos + 1)
      else Inl InvalidPattern)"

definition parseRepetition :: "string \<Rightarrow> nat \<Rightarrow> error + (Pattern \<times> nat)" where
  "parseRepetition str pos = parseAtomicPattern str pos"

text \<open>The \<open>while\<close> loop of \<open>parseConcatenation\<close> (lines 86-90), on the state \<open>(p1, *pos)\<close>.\<close>

function parseConcatenationLoop ::
  "string \<Rightarrow> Pattern \<Rightarrow> nat \<Rightarrow> error + (Pattern \<times> nat)" where
  "parseConcatenationLoop str p1 pos =
     (if cstr_at str pos \<noteq> CHR 0x00 \<and> cstr_at str pos \<noteq> CHR ''|''
         \<and> cstr_at str pos \<noteq> CHR '')''
      then (case parseRepetition str pos of
              Inl e \<Rightarrow> Inl e
            | Inr (p2, pos') \<Rightarrow> parseConcatenationLoop str (makeConcatenationPattern p1 p2) pos')
      else Inr (p1, pos))"
  by pat_completeness auto
termination
  by (relation "measure (\<lambda>(str, p1, pos). length str - pos)")
     (auto simp: parseRepetition_def parseAtomicPattern_def cstr_at_def split: if_splits)

definition parseConcatenation :: "string \<Rightarrow> nat \<Rightarrow> error + (Pattern \<times> nat)" where
  "parseConcatenation str pos =
     (case parseRepetition str pos of
        Inl e \<Rightarrow> Inl e
      | Inr (p1, pos') \<Rightarrow> parseConcatenationLoop str p1 pos')"

definition parseAlternation :: "string \<Rightarrow> nat \<Rightarrow> error + (Pattern \<times> nat)" where
  "parseAlternation str pos = parseConcatenation str pos"

text \<open>
  The pattern checks of \<open>main\<close> on \<open>argv[1]\<close> (lines 126-140): the test of the first
  character, then the bracket counting loop and the test of its result. The counter is
  an \<open>int\<close> that changes by at most one per character, and a command-line argument is far
  shorter than \<open>2^31\<close> characters, so it is modelled by an unbounded integer.
\<close>

function main_countLoop :: "string \<Rightarrow> nat \<Rightarrow> int \<Rightarrow> int" where
  "main_countLoop arg i count =
     (if i < length arg
      then main_countLoop arg (Suc i)
             (if cstr_at arg i = CHR ''['' \<or> cstr_at arg i = CHR ''('' \<or> cstr_at arg i = CHR ''{''
              then count + 1
              else if cstr_at arg i = CHR '']'' \<or> cstr_at arg i = CHR '')''
                      \<or> cstr_at arg i = CHR ''}''
              then count - 1
              else count)
      else count)"
  by pat_completeness auto
termination
  by (relation "measure (\<lambda>(arg, i, count). length arg - i)") auto

definition main_checkPattern :: "string \<Rightarrow> error + unit" where
  "main_checkPattern arg =
     (if cstr_at arg 0 = CHR ''*'' \<or> cstr_at arg 0 = CHR ''+'' \<or> cstr_at arg 0 = CHR ''|''
      then Inl InvalidPattern
      else if main_countLoop arg 0 0 \<noteq> 0
      then Inl InvalidPattern
      else Inr ())"

section \<open>Reference notions of the specification\<close>

text \<open>
  What it means for a pattern tree to match a string, in the words of the data model: a
  symbol matches exactly its one literal character, and a concatenation matches a string
  that splits into a part matched by the left sub-pattern immediately followed by a part
  matched by the right sub-pattern.
\<close>

fun spec_matches :: "Pattern \<Rightarrow> string \<Rightarrow> bool" where
  "spec_matches (SymbolPattern c) s = (s = [c])"
| "spec_matches (ConcatenationPattern p1 p2) s =
     (\<exists>k \<in> set [0..<Suc (length s)]. spec_matches p1 (take k s) \<and> spec_matches p2 (drop k s))"

text \<open>The input substring spanning the boundary positions \<open>j..i\<close>.\<close>

definition spec_substring :: "string \<Rightarrow> nat \<Rightarrow> nat \<Rightarrow> string" where
  "spec_substring str j i = take (i - j) (drop j str)"

text \<open>
  The net nesting count of a pattern string: the number of opening \<open>[\<close>, \<open>(\<close>, \<open>{\<close> minus
  the number of closing \<open>]\<close>, \<open>)\<close>, \<open>}\<close>.
\<close>

definition spec_netCount :: "string \<Rightarrow> int" where
  "spec_netCount s =
     int (length (filter (\<lambda>c. c \<in> set ''[({'') s)) - int (length (filter (\<lambda>c. c \<in> set ''])}'') s))"

section \<open>Properties of the pattern engine\<close>

declare matchSymbolLoop.simps [simp del]

lemma matchSymbolLoop_length:
  "length (matchSymbolLoop symb len str before i after) = length after"
proof (induction symb len str before i after rule: matchSymbolLoop.induct)
  case (1 symb len str before i after)
  show ?case
  proof (cases "i < len")
    case True
    with "1" show ?thesis by (simp add: matchSymbolLoop.simps [of symb len str before i after])
  next
    case False
    then show ?thesis by (simp add: matchSymbolLoop.simps [of symb len str before i after])
  qed
qed

lemma matchSymbolLoop_nth:
  assumes "length after = len + 1" and "k \<le> len"
  shows "matchSymbolLoop symb len str before i after ! k =
           (if i < k then before ! (k - 1) \<and> cstr_at str (k - 1) = symb else after ! k)"
  using assms
proof (induction symb len str before i after rule: matchSymbolLoop.induct)
  case (1 symb len str before i after)
  show ?case
  proof (cases "i < len")
    case True
    have "matchSymbolLoop symb len str before i after ! k =
          matchSymbolLoop symb len str before (Suc i)
             (after[i + 1 := (before ! i \<and> cstr_at str i = symb)]) ! k"
      using True by (simp add: matchSymbolLoop.simps [of symb len str before i after])
    also have "\<dots> = (if Suc i < k then before ! (k - 1) \<and> cstr_at str (k - 1) = symb
                      else (after[i + 1 := (before ! i \<and> cstr_at str i = symb)]) ! k)"
      using "1.IH" [OF True] "1.prems" by simp
    also have "\<dots> = (if i < k then before ! (k - 1) \<and> cstr_at str (k - 1) = symb else after ! k)"
    proof (cases "k = Suc i")
      case True
      then show ?thesis using "1.prems" by simp
    next
      case False
      then show ?thesis using "1.prems" by (auto simp: nth_list_update)
    qed
    finally show ?thesis .
  next
    case False
    then show ?thesis using "1.prems"
      by (simp add: matchSymbolLoop.simps [of symb len str before i after])
  qed
qed

lemma matchSymbolPattern_closed:
  assumes "length after = len + 1"
  shows "matchSymbolPattern symb len str before after =
           False # map (\<lambda>i. before ! i \<and> cstr_at str i = symb) [0..<len]"
proof (rule nth_equalityI)
  show "length (matchSymbolPattern symb len str before after) =
        length (False # map (\<lambda>i. before ! i \<and> cstr_at str i = symb) [0..<len])"
    using assms by (simp add: matchSymbolPattern_def matchSymbolLoop_length)
next
  fix k assume "k < length (matchSymbolPattern symb len str before after)"
  then have k: "k \<le> len"
    using assms by (simp add: matchSymbolPattern_def matchSymbolLoop_length)
  have "matchSymbolPattern symb len str before after ! k =
        (if 0 < k then before ! (k - 1) \<and> cstr_at str (k - 1) = symb else False)"
    unfolding matchSymbolPattern_def
    using matchSymbolLoop_nth [of "after[0 := False]" len k symb str before 0] assms k
    by (auto)
  then show "matchSymbolPattern symb len str before after ! k =
        (False # map (\<lambda>i. before ! i \<and> cstr_at str i = symb) [0..<len]) ! k"
    using k by (cases k) auto
qed

lemma match_length:
  "length after = len + 1 \<Longrightarrow> length (match p len str before after) = len + 1"
  by (induction p arbitrary: before after)
     (simp_all add: matchSymbolPattern_def matchSymbolLoop_length Let_def)

lemma match_after_irrelevant:
  assumes "length after = len + 1" and "length after' = len + 1"
  shows "match p len str before after = match p len str before after'"
  using assms
proof (induction p arbitrary: before after after')
  case (SymbolPattern c)
  then show ?case by (simp add: matchSymbolPattern_closed)
next
  case (ConcatenationPattern p1 p2)
  show ?case
    using ConcatenationPattern.IH(2) [OF ConcatenationPattern.prems]
    by (simp add: Let_def)
qed


lemma spec_substring_length:
  "i \<le> length str \<Longrightarrow> length (spec_substring str j i) = i - j"
  by (auto simp: spec_substring_def)

lemma spec_substring_take:
  "j \<le> k \<Longrightarrow> k \<le> i \<Longrightarrow> take (k - j) (spec_substring str j i) = spec_substring str j k"
  by (simp add: spec_substring_def min_def)

lemma spec_substring_drop:
  "j \<le> k \<Longrightarrow> k \<le> i \<Longrightarrow> drop (k - j) (spec_substring str j i) = spec_substring str k i"
  by (simp add: spec_substring_def drop_take)

lemma spec_substring_singleton:
  assumes "i \<le> length str" and "j \<le> i"
  shows "spec_substring str j i = [c] \<longleftrightarrow> i = Suc j \<and> str ! j = c"
proof
  assume h: "spec_substring str j i = [c]"
  then have "length (spec_substring str j i) = 1" by simp
  then have ij: "i = Suc j" using assms by (simp add: spec_substring_length)
  then have "spec_substring str j i = [str ! j]"
    using assms by (simp add: spec_substring_def take_Suc_conv_app_nth)
  with h ij show "i = Suc j \<and> str ! j = c" by simp
next
  assume "i = Suc j \<and> str ! j = c"
  then show "spec_substring str j i = [c]"
    using assms by (simp add: spec_substring_def take_Suc_conv_app_nth)
qed

lemma match_symbol_spec:
  assumes "len = length str" and "length after = len + 1" and "i \<le> len"
  shows "match (SymbolPattern c) len str before after ! i \<longleftrightarrow>
           (\<exists>j\<le>i. before ! j \<and> spec_matches (SymbolPattern c) (spec_substring str j i))"
proof (cases i)
  case 0
  then show ?thesis
    using assms by (simp add: matchSymbolPattern_closed spec_substring_def)
next
  case (Suc n)
  have l: "match (SymbolPattern c) len str before after ! i = (before ! n \<and> str ! n = c)"
    using assms Suc by (simp add: matchSymbolPattern_closed cstr_at_def)
  have r: "(\<exists>j\<le>i. before ! j \<and> spec_matches (SymbolPattern c) (spec_substring str j i))
           = (before ! n \<and> str ! n = c)"
  proof -
    have "\<And>j. j \<le> i \<Longrightarrow>
            spec_matches (SymbolPattern c) (spec_substring str j i) = (j = n \<and> str ! j = c)"
      using assms Suc by (auto simp: spec_substring_singleton)
    then have "\<And>j. j \<le> i \<Longrightarrow>
            (before ! j \<and> spec_matches (SymbolPattern c) (spec_substring str j i))
            = (j = n \<and> before ! n \<and> str ! n = c)"
      by blast
    moreover have "n \<le> i" using Suc by simp
    ultimately show ?thesis by blast
  qed
  show ?thesis using l r by simp
qed

lemma spec_matches_concat_iff:
  "spec_matches (ConcatenationPattern p1 p2) s \<longleftrightarrow>
     (\<exists>m\<le>length s. spec_matches p1 (take m s) \<and> spec_matches p2 (drop m s))"
  by (simp only: spec_matches.simps Bex_def set_upt atLeastLessThan_iff less_Suc_eq_le
        le0 simp_thms)

declare spec_matches.simps(2) [simp del]

lemma spec_matches_concat_substring:
  assumes "i \<le> length str" and "j \<le> i"
  shows "spec_matches (ConcatenationPattern p1 p2) (spec_substring str j i) \<longleftrightarrow>
           (\<exists>k. j \<le> k \<and> k \<le> i \<and> spec_matches p1 (spec_substring str j k)
                 \<and> spec_matches p2 (spec_substring str k i))"
proof
  assume "spec_matches (ConcatenationPattern p1 p2) (spec_substring str j i)"
  then obtain m where m: "m \<le> i - j"
      "spec_matches p1 (take m (spec_substring str j i))"
      "spec_matches p2 (drop m (spec_substring str j i))"
    using assms unfolding spec_matches_concat_iff by (auto simp: spec_substring_length)
  have "take m (spec_substring str j i) = spec_substring str j (j + m)"
    using spec_substring_take [of j "j + m" i str] m(1) assms by simp
  moreover have "drop m (spec_substring str j i) = spec_substring str (j + m) i"
    using spec_substring_drop [of j "j + m" i str] m(1) assms by simp
  ultimately have "j \<le> j + m \<and> j + m \<le> i \<and> spec_matches p1 (spec_substring str j (j + m))
                 \<and> spec_matches p2 (spec_substring str (j + m) i)"
    using m assms by simp
  then show "\<exists>k. j \<le> k \<and> k \<le> i \<and> spec_matches p1 (spec_substring str j k)
                 \<and> spec_matches p2 (spec_substring str k i)" by blast
next
  assume "\<exists>k. j \<le> k \<and> k \<le> i \<and> spec_matches p1 (spec_substring str j k)
                 \<and> spec_matches p2 (spec_substring str k i)"
  then obtain k where k: "j \<le> k" "k \<le> i" "spec_matches p1 (spec_substring str j k)"
      "spec_matches p2 (spec_substring str k i)" by blast
  have "k - j \<le> length (spec_substring str j i)"
    using k assms by (simp add: spec_substring_length)
  moreover have "spec_matches p1 (take (k - j) (spec_substring str j i))"
    using k by (simp add: spec_substring_take)
  moreover have "spec_matches p2 (drop (k - j) (spec_substring str j i))"
    using k by (simp add: spec_substring_drop)
  ultimately show "spec_matches (ConcatenationPattern p1 p2) (spec_substring str j i)"
    unfolding spec_matches_concat_iff by blast
qed

lemma match_spec:
  assumes "len = length str" and "length after = len + 1" and "i \<le> len"
  shows "match p len str before after ! i \<longleftrightarrow>
           (\<exists>j\<le>i. before ! j \<and> spec_matches p (spec_substring str j i))"
  using assms
proof (induction p arbitrary: before after i)
  case (SymbolPattern c)
  then show ?case by (rule match_symbol_spec)
next
  case (ConcatenationPattern p1 p2)
  define mid where "mid = match p1 len str before (replicate (len + 1) False)"
  have mid: "\<And>k. k \<le> len \<Longrightarrow>
               mid ! k \<longleftrightarrow> (\<exists>j\<le>k. before ! j \<and> spec_matches p1 (spec_substring str j k))"
    unfolding mid_def using ConcatenationPattern.IH(1) [of "replicate (len + 1) False"]
      ConcatenationPattern.prems(1) by simp
  have mid': "\<forall>k\<le>i. mid ! k \<longleftrightarrow>
                (\<exists>j\<le>k. before ! j \<and> spec_matches p1 (spec_substring str j k))"
  proof (intro allI impI)
    fix k assume "k \<le> i"
    then have "k \<le> len" using ConcatenationPattern.prems(3) by simp
    then show "mid ! k \<longleftrightarrow> (\<exists>j\<le>k. before ! j \<and> spec_matches p1 (spec_substring str j k))"
      by (rule mid)
  qed
  have "match (ConcatenationPattern p1 p2) len str before after ! i
        = match p2 len str mid after ! i"
    by (simp add: mid_def Let_def)
  also have "\<dots> \<longleftrightarrow> (\<exists>k\<le>i. mid ! k \<and> spec_matches p2 (spec_substring str k i))"
    using ConcatenationPattern.IH(2) [OF ConcatenationPattern.prems] .
  also have "\<dots> \<longleftrightarrow> (\<exists>k\<le>i. (\<exists>j\<le>k. before ! j \<and> spec_matches p1 (spec_substring str j k))
                            \<and> spec_matches p2 (spec_substring str k i))"
    using mid' by blast
  also have "\<dots> \<longleftrightarrow> (\<exists>j\<le>i. before ! j \<and> (\<exists>k. j \<le> k \<and> k \<le> i
                            \<and> spec_matches p1 (spec_substring str j k)
                            \<and> spec_matches p2 (spec_substring str k i)))"
    by (meson order_trans)
  also have "\<dots> \<longleftrightarrow> (\<exists>j\<le>i. before ! j
                            \<and> spec_matches (ConcatenationPattern p1 p2) (spec_substring str j i))"
  proof -
    have "\<forall>j\<le>i. spec_matches (ConcatenationPattern p1 p2) (spec_substring str j i) \<longleftrightarrow>
            (\<exists>k. j \<le> k \<and> k \<le> i \<and> spec_matches p1 (spec_substring str j k)
                 \<and> spec_matches p2 (spec_substring str k i))"
      using spec_matches_concat_substring [of i str _ p1 p2] ConcatenationPattern.prems by simp
    then show ?thesis by blast
  qed
  finally show ?case .
qed

lemma matchSymbolPattern_all_false:
  assumes "length after = len + 1"
  shows "matchSymbolPattern c len str (replicate (len + 1) False) after = replicate (len + 1) False"
proof -
  have "map (\<lambda>i. replicate (len + 1) False ! i \<and> cstr_at str i = c) [0..<len]
        = map (\<lambda>i. False) [0..<len]"
    by (rule map_cong) (auto simp del: replicate.simps)
  also have "\<dots> = replicate len False"
    by (simp add: map_replicate_const)
  finally show ?thesis using assms by (simp add: matchSymbolPattern_closed)
qed

text \<open>
  C1. For every pattern tree, every input line \<open>str\<close> of length \<open>len\<close>, every \<open>before\<close> vector of
  \<open>len + 1\<close> marks and every output array of \<open>len + 1\<close> cells, \<open>match\<close> leaves \<open>len + 1\<close>
  marks in the output array, and the mark at position \<open>i\<close> is set exactly if some position
  \<open>j \<le> i\<close> has \<open>before[j]\<close> set and the tree matches the substring of the input between the
  positions \<open>j\<close> and \<open>i\<close>.
\<close>

theorem match_marks_reachability:
  assumes "len = length str" and "length before = len + 1" and "length after = len + 1"
  shows "length (match p len str before after) = len + 1 \<and>
         (\<forall>i\<le>len. match p len str before after ! i \<longleftrightarrow>
            (\<exists>j\<le>i. before ! j \<and> spec_matches p (spec_substring str j i)))"
  using assms match_length [of after len p str before] match_spec [of len str after _ p before]
  by blast

theorem match_marks_reachability_witness:
  "length (match (ConcatenationPattern (SymbolPattern CHR ''b'') (SymbolPattern CHR ''c'')) 3 ''abc''
             [True, True, True, True] [False, False, False, False]) = 3 + 1 \<and>
   match (ConcatenationPattern (SymbolPattern CHR ''b'') (SymbolPattern CHR ''c'')) 3 ''abc''
             [True, True, True, True] [False, False, False, False] ! 3 \<and>
   (\<exists>j\<le>3. [True, True, True, True] ! j \<and>
         spec_matches (ConcatenationPattern (SymbolPattern CHR ''b'') (SymbolPattern CHR ''c''))
           (spec_substring ''abc'' j 3))"
proof -
  let ?p = "ConcatenationPattern (SymbolPattern CHR ''b'') (SymbolPattern CHR ''c'')"
  let ?r = "match ?p 3 ''abc'' [True, True, True, True] [False, False, False, False]"
  have m: "?r = [False, False, False, True]"
    by (simp add: matchSymbolPattern_closed cstr_at_def eval_nat_numeral Let_def)
  have h: "3 = length ''abc''" "length [True, True, True, True] = 3 + 1"
      "length [False, False, False, False] = 3 + 1"
    by simp_all
  note th = match_marks_reachability [OF h, of ?p]
  from th have a: "length ?r = 3 + 1" by (rule conjunct1)
  from th have "?r ! 3 \<longleftrightarrow> (\<exists>j\<le>3. [True, True, True, True] ! j \<and>
         spec_matches ?p (spec_substring ''abc'' j 3))"
    by blast
  moreover have "?r ! 3" by (simp only: m) simp
  ultimately show ?thesis using a by blast
qed

text \<open>
  C2. For a symbol pattern with character \<open>c\<close>, \<open>match\<close> sets \<open>after[0]\<close> to false and
  \<open>after[i + 1]\<close> to \<open>before[i] && str[i] == c\<close> for every \<open>i\<close> from \<open>0\<close> to \<open>len - 1\<close>; hence the
  number of set marks in \<open>after\<close> is the number of positions \<open>i\<close> with \<open>before[i]\<close> set and
  \<open>str[i]\<close> equal to \<open>c\<close>.
\<close>

theorem matchSymbolPattern_rule:
  assumes "len = length str" and "length before = len + 1" and "length after = len + 1"
  shows "match (makeSymbolPattern c) len str before after ! 0 = False \<and>
         (\<forall>i<len. match (makeSymbolPattern c) len str before after ! (i + 1)
                    = (before ! i \<and> str ! i = c)) \<and>
         length (filter (\<lambda>b. b) (match (makeSymbolPattern c) len str before after))
           = length (filter (\<lambda>i. before ! i \<and> str ! i = c) [0..<len])"
proof -
  let ?f = "\<lambda>i. before ! i \<and> cstr_at str i = c"
  have cl: "match (makeSymbolPattern c) len str before after = False # map ?f [0..<len]"
    using assms by (simp add: makeSymbolPattern_def matchSymbolPattern_closed)
  have a: "match (makeSymbolPattern c) len str before after ! 0 = False"
    by (simp add: cl)
  have b: "\<forall>i<len. match (makeSymbolPattern c) len str before after ! (i + 1)
                    = (before ! i \<and> str ! i = c)"
    unfolding cl using assms by (simp add: cstr_at_def)
  have "filter (\<lambda>b. b) (map ?f [0..<len]) = map ?f (filter ?f [0..<len])"
    by (simp add: filter_map comp_def)
  then have "length (filter (\<lambda>b. b) (False # map ?f [0..<len])) = length (filter ?f [0..<len])"
    by simp
  also have "filter ?f [0..<len] = filter (\<lambda>i. before ! i \<and> str ! i = c) [0..<len]"
    using assms by (intro filter_cong) (auto simp: cstr_at_def)
  finally have c: "length (filter (\<lambda>b. b) (match (makeSymbolPattern c) len str before after))
           = length (filter (\<lambda>i. before ! i \<and> str ! i = c) [0..<len])"
    by (simp add: cl)
  from a b c show ?thesis by blast
qed

theorem matchSymbolPattern_rule_witness:
  "match (makeSymbolPattern CHR ''b'') 3 ''abb'' [True, False, True, True] [True, True, True, True]
     = [False, False, False, True] \<and>
   length (filter (\<lambda>b. b) (match (makeSymbolPattern CHR ''b'') 3 ''abb'' [True, False, True, True]
     [True, True, True, True])) = 1"
  using matchSymbolPattern_rule [of 3 "''abb''" "[True, False, True, True]" "[True, True, True, True]" "CHR ''b''"]
  by (simp add: makeSymbolPattern_def matchSymbolPattern_closed cstr_at_def eval_nat_numeral)

text \<open>
  C3. Matching a concatenation of \<open>p1\<close> and \<open>p2\<close> is the composition of the matches of the
  sub-patterns: the marks produced by \<open>p1\<close> from \<open>before\<close> (in the temporary array
  \<open>midMarks\<close>, whatever it held initially) are the marks from which \<open>p2\<close> produces the result.
\<close>

theorem matchConcatenationPattern_composes:
  assumes "length midMarks = len + 1"
  shows "match (makeConcatenationPattern p1 p2) len str before after
           = match p2 len str (match p1 len str before midMarks) after"
  using match_after_irrelevant [of "replicate (len + 1) False" len midMarks p1 str before] assms
  by (simp add: makeConcatenationPattern_def Let_def)

theorem matchConcatenationPattern_composes_witness:
  "match (makeConcatenationPattern (SymbolPattern CHR ''b'') (SymbolPattern CHR ''c'')) 3 ''abc''
      [True, True, True, True] [True, False, True, False]
   = match (SymbolPattern CHR ''c'') 3 ''abc''
       (match (SymbolPattern CHR ''b'') 3 ''abc'' [True, True, True, True] [True, True, False, True])
       [True, False, True, False]"
  using matchConcatenationPattern_composes [of "[True, True, False, True]" 3 "SymbolPattern CHR ''b''" "SymbolPattern CHR ''c''"
      "''abc''" "[True, True, True, True]" "[True, False, True, False]"]
  by simp

text \<open>
  C4. Concatenation is associative in effect: on every input line and \<open>before\<close> vector, the
  pattern \<open>(p1 p2) p3\<close> and the pattern \<open>p1 (p2 p3)\<close> yield the same \<open>after\<close> vector.
\<close>

theorem concatenation_associative:
  "match (makeConcatenationPattern (makeConcatenationPattern p1 p2) p3) len str before after
     = match (makeConcatenationPattern p1 (makeConcatenationPattern p2 p3)) len str before after"
  by (simp add: makeConcatenationPattern_def Let_def)

text \<open>
  C8. For every pattern tree and every input line, the all-false \<open>before\<close> vector yields the
  all-false \<open>after\<close> vector.
\<close>

theorem match_all_false_seed:
  assumes "length after = len + 1"
  shows "match p len str (replicate (len + 1) False) after = replicate (len + 1) False"
  using assms
proof (induction p arbitrary: after)
  case (SymbolPattern c)
  then show ?case by (simp only: match.simps matchSymbolPattern_all_false)
next
  case (ConcatenationPattern p1 p2)
  have "match p1 len str (replicate (len + 1) False) (replicate (len + 1) False)
          = replicate (len + 1) False"
    by (rule ConcatenationPattern.IH(1)) simp
  then show ?case
    using ConcatenationPattern.IH(2) [OF ConcatenationPattern.prems] by (simp add: Let_def)
qed

theorem match_all_false_seed_witness:
  "match (ConcatenationPattern (SymbolPattern CHR ''b'') (SymbolPattern CHR ''c'')) 3 ''abc''
      (replicate (3 + 1) False) [True, True, True, True] = replicate (3 + 1) False"
  using match_all_false_seed [of "[True, True, True, True]" 3
      "ConcatenationPattern (SymbolPattern CHR ''b'') (SymbolPattern CHR ''c'')" "''abc''"]
  by simp

section \<open>Properties of the parser and of the checks in main\<close>

declare parseConcatenationLoop.simps [simp del]

declare main_countLoop.simps [simp del]

declare reportMarksLoop.simps [simp del]

lemma strchr_None: "strchr s c = None \<longleftrightarrow> c \<notin> set s \<and> c \<noteq> CHR 0x00"
  by (induction s) auto

lemma ordinary_iff:
  "ordinary c \<longleftrightarrow> c \<notin> set ''.^$*?+|()[{'' \<and> c \<noteq> CHR 0x00"
proof -
  have "ordinary c \<longleftrightarrow> strchr ''.^$*?+|()[{'' c = None"
    unfolding ordinary_def by (cases "strchr ''.^$*?+|()[{'' c") simp_all
  then show ?thesis by (simp only: strchr_None)
qed

lemma cstr_at_append_length: "cstr_at (pre @ x # rest) (length pre) = x"
  by (simp add: cstr_at_def)

lemma cstr_at_end: "cstr_at s (length s) = CHR 0x00"
  by (simp add: cstr_at_def)

lemma parseRepetition_ordinary:
  "ordinary x \<Longrightarrow>
     parseRepetition (pre @ x # rest) (length pre) = Inr (makeSymbolPattern x, length pre + 1)"
  by (simp add: parseRepetition_def parseAtomicPattern_def cstr_at_append_length)

lemma parseRepetition_not_ordinary:
  "\<not> ordinary (cstr_at str pos) \<Longrightarrow> parseRepetition str pos = Inl InvalidPattern"
  by (simp add: parseRepetition_def parseAtomicPattern_def)

lemma parseAlternation_not_ordinary:
  "\<not> ordinary (cstr_at str pos) \<Longrightarrow> parseAlternation str pos = Inl InvalidPattern"
  by (simp add: parseAlternation_def parseConcatenation_def parseRepetition_not_ordinary)

lemma parseConcatenationLoop_stop:
  assumes "rest = [] \<or> hd rest = CHR 0x00 \<or> hd rest = CHR ''|'' \<or> hd rest = CHR '')''"
  shows "parseConcatenationLoop (pre @ rest) p (length pre) = Inr (p, length pre)"
proof (cases rest)
  case Nil
  then show ?thesis
    by (simp add: parseConcatenationLoop.simps [of pre p "length pre"] cstr_at_end)
next
  case (Cons x xs)
  then have "cstr_at (pre @ rest) (length pre) = x" by (simp add: cstr_at_append_length)
  moreover have "x = CHR 0x00 \<or> x = CHR ''|'' \<or> x = CHR '')''" using assms Cons by simp
  ultimately show ?thesis
    by (auto simp: parseConcatenationLoop.simps [of "pre @ rest" p "length pre"])
qed

lemma parseConcatenationLoop_fail:
  assumes "rest \<noteq> []" and "\<not> ordinary (hd rest)"
    and "hd rest \<noteq> CHR 0x00" and "hd rest \<noteq> CHR ''|''" and "hd rest \<noteq> CHR '')''"
  shows "parseConcatenationLoop (pre @ rest) p (length pre) = Inl InvalidPattern"
proof -
  obtain x xs where r: "rest = x # xs" using assms(1) by (cases rest) auto
  then have c: "cstr_at (pre @ rest) (length pre) = x" by (simp add: cstr_at_append_length)
  have "parseRepetition (pre @ rest) (length pre) = Inl InvalidPattern"
    using assms(2) r c by (simp add: parseRepetition_not_ordinary)
  then show ?thesis
    using assms r c by (subst parseConcatenationLoop.simps) simp
qed

lemma parseConcatenationLoop_step:
  assumes "ordinary x"
  shows "parseConcatenationLoop (pre @ x # rest) p (length pre)
           = parseConcatenationLoop ((pre @ [x]) @ rest) (makeConcatenationPattern p (makeSymbolPattern x))
               (length (pre @ [x]))"
proof -
  have "x \<noteq> CHR 0x00 \<and> x \<noteq> CHR ''|'' \<and> x \<noteq> CHR '')''"
    using assms by (auto simp: ordinary_iff)
  then show ?thesis
    using parseRepetition_ordinary [OF assms, of pre rest]
    by (simp add: parseConcatenationLoop.simps [of "pre @ x # rest" p "length pre"]
        cstr_at_append_length)
qed

lemma parseConcatenationLoop_ordinary:
  assumes "\<forall>x\<in>set w. ordinary x"
  shows "parseConcatenationLoop (pre @ w @ rest) p (length pre)
           = parseConcatenationLoop ((pre @ w) @ rest)
               (foldl makeConcatenationPattern p (map makeSymbolPattern w)) (length (pre @ w))"
  using assms
proof (induction w arbitrary: pre p)
  case Nil
  then show ?case by simp
next
  case (Cons x w)
  have "parseConcatenationLoop (pre @ (x # w) @ rest) p (length pre)
        = parseConcatenationLoop ((pre @ [x]) @ w @ rest)
            (makeConcatenationPattern p (makeSymbolPattern x)) (length (pre @ [x]))"
    using parseConcatenationLoop_step [of x pre "w @ rest" p] Cons.prems by simp
  also have "\<dots> = parseConcatenationLoop (((pre @ [x]) @ w) @ rest)
            (foldl makeConcatenationPattern (makeConcatenationPattern p (makeSymbolPattern x))
               (map makeSymbolPattern w)) (length ((pre @ [x]) @ w))"
    using Cons.prems by (intro Cons.IH) simp
  finally show ?case by simp
qed

lemma parseConcatenation_ordinary:
  assumes "\<forall>x\<in>set (c # w). ordinary x"
  shows "parseConcatenation (pre @ c # w @ rest) (length pre)
           = parseConcatenationLoop ((pre @ c # w) @ rest)
               (foldl makeConcatenationPattern (makeSymbolPattern c) (map makeSymbolPattern w))
               (length (pre @ c # w))"
proof -
  have "parseConcatenation (pre @ c # w @ rest) (length pre)
        = parseConcatenationLoop ((pre @ [c]) @ w @ rest) (makeSymbolPattern c) (length (pre @ [c]))"
    using assms parseRepetition_ordinary [of c pre "w @ rest"]
    by (simp add: parseConcatenation_def)
  also have "\<dots> = parseConcatenationLoop (((pre @ [c]) @ w) @ rest)
               (foldl makeConcatenationPattern (makeSymbolPattern c) (map makeSymbolPattern w))
               (length ((pre @ [c]) @ w))"
    using assms by (intro parseConcatenationLoop_ordinary) simp
  finally show ?thesis by simp
qed

lemma fold_make_constructors:
  "foldl makeConcatenationPattern (makeSymbolPattern c) (map makeSymbolPattern w)
     = foldl ConcatenationPattern (SymbolPattern c) (map SymbolPattern w)"
proof -
  have "makeConcatenationPattern = ConcatenationPattern"
    by (intro ext) (simp add: makeConcatenationPattern_def)
  moreover have "makeSymbolPattern = SymbolPattern"
    by (intro ext) (simp add: makeSymbolPattern_def)
  ultimately show ?thesis by simp
qed

lemma parseConcatenation_run:
  assumes "\<forall>x\<in>set (c # w). ordinary x"
    and "rest = [] \<or> hd rest = CHR ''|'' \<or> hd rest = CHR '')''"
  shows "parseConcatenation (pre @ c # w @ rest) (length pre)
           = Inr (foldl ConcatenationPattern (SymbolPattern c) (map SymbolPattern w),
                  length pre + 1 + length w)"
proof -
  have "parseConcatenation (pre @ c # w @ rest) (length pre)
        = parseConcatenationLoop ((pre @ c # w) @ rest)
            (foldl makeConcatenationPattern (makeSymbolPattern c) (map makeSymbolPattern w))
            (length (pre @ c # w))"
    using assms(1) by (rule parseConcatenation_ordinary)
  also have "\<dots> = Inr (foldl makeConcatenationPattern (makeSymbolPattern c)
                           (map makeSymbolPattern w), length (pre @ c # w))"
    using assms(2) by (intro parseConcatenationLoop_stop) blast
  finally show ?thesis by (simp add: fold_make_constructors)
qed

lemma parseConcatenation_run_fail:
  assumes "\<forall>x\<in>set (c # w). ordinary x" and "rest \<noteq> []" and "\<not> ordinary (hd rest)"
    and "hd rest \<noteq> CHR 0x00" and "hd rest \<noteq> CHR ''|''" and "hd rest \<noteq> CHR '')''"
  shows "parseConcatenation (pre @ c # w @ rest) (length pre) = Inl InvalidPattern"
proof -
  have "parseConcatenation (pre @ c # w @ rest) (length pre)
        = parseConcatenationLoop ((pre @ c # w) @ rest)
            (foldl makeConcatenationPattern (makeSymbolPattern c) (map makeSymbolPattern w))
            (length (pre @ c # w))"
    using assms(1) by (rule parseConcatenation_ordinary)
  also have "\<dots> = Inl InvalidPattern"
    using assms(2-) by (rule parseConcatenationLoop_fail)
  finally show ?thesis .
qed

lemma parseAlternation_b: "parseAlternation ''b'' 0 = Inr (SymbolPattern CHR ''b'', 1)"
  using parseConcatenation_run [of "CHR ''b''" "[]" "[]" "[]"]
  by (simp add: parseAlternation_def ordinary_iff)

lemma parseAlternation_bc:
  "parseAlternation ''bc'' 0
     = Inr (ConcatenationPattern (SymbolPattern CHR ''b'') (SymbolPattern CHR ''c''), 2)"
  using parseConcatenation_run [of "CHR ''b''" "[CHR ''c'']" "[]" "[]"]
  by (simp add: parseAlternation_def ordinary_iff)

lemma spec_netCount_Cons:
  "spec_netCount (x # xs) =
     (if x = CHR ''['' \<or> x = CHR ''('' \<or> x = CHR ''{'' then 1
      else if x = CHR '']'' \<or> x = CHR '')'' \<or> x = CHR ''}'' then - 1 else 0)
     + spec_netCount xs"
  by (simp add: spec_netCount_def)

lemma main_countLoop_netCount_from:
  "main_countLoop arg i count = count + spec_netCount (drop i arg)"
proof (induction arg i count rule: main_countLoop.induct)
  case (1 arg i count)
  show ?case
  proof (cases "i < length arg")
    case True
    let ?count' = "if cstr_at arg i = CHR ''['' \<or> cstr_at arg i = CHR ''('' \<or> cstr_at arg i = CHR ''{''
              then count + 1
              else if cstr_at arg i = CHR '']'' \<or> cstr_at arg i = CHR '')''
                      \<or> cstr_at arg i = CHR ''}''
              then count - 1
              else count"
    have d: "drop i arg = arg ! i # drop (Suc i) arg"
      using True by (simp add: Cons_nth_drop_Suc)
    have c: "cstr_at arg i = arg ! i" using True by (simp add: cstr_at_def)
    have "main_countLoop arg i count = main_countLoop arg (Suc i) ?count'"
      using True by (subst main_countLoop.simps) (simp only: if_True)
    also have "\<dots> = ?count' + spec_netCount (drop (Suc i) arg)"
      by (rule "1.IH" [OF True])
    also have "\<dots> = count + spec_netCount (arg ! i # drop (Suc i) arg)"
      unfolding c spec_netCount_Cons by simp
    also have "\<dots> = count + spec_netCount (drop i arg)"
      by (simp only: d)
    finally show ?thesis .
  next
    case False
    then show ?thesis by (subst main_countLoop.simps) (simp add: spec_netCount_def)
  qed
qed

lemma main_countLoop_netCount: "main_countLoop arg 0 0 = spec_netCount arg"
  by (simp add: main_countLoop_netCount_from)

lemma reportMarksLoop_abc:
  "reportMarksLoop ''abc'' [False, False, True, False] 0 [] = (3, '' a b*c'')"
  by (simp add: reportMarksLoop.simps cstr_at_def)

lemma match_b_abc:
  assumes "length after = 4"
  shows "match (SymbolPattern CHR ''b'') 3 ''abc'' [True, True, True, True] after
           = [False, False, True, False]"
  using assms by (simp add: matchSymbolPattern_closed cstr_at_def eval_nat_numeral)

lemma reportMarks_abc:
  "reportMarks ''abc'' [False, False, True, False] = '' a b*c '' @ [CHR 0x0A]"
  by (simp add: reportMarks_def reportMarksLoop_abc)

text \<open>
  C5. Parsing \<open>"b"\<close> from position 0 yields the symbol node for \<open>b\<close>, and parsing \<open>"bc"\<close> yields
  the concatenation of the symbol nodes for \<open>b\<close> and \<open>c\<close>. In general the concatenation level
  parses one repetition-level pattern and goes on parsing repetition-level patterns while
  the next character is neither the end of the string, \<open>|\<close> nor \<open>)\<close>: on a run of ordinary
  characters \<open>c # w\<close> that ends at the end of the string, at \<open>|\<close> or at \<open>)\<close> it returns the
  left-nested concatenation of their symbol nodes with the cursor behind the run, and when
  the run ends at any other character that is not ordinary the parse is an invalid pattern.
\<close>

theorem parseConcatenation_left_nested:
  "parseAlternation ''b'' 0 = Inr (SymbolPattern CHR ''b'', 1) \<and>
   parseAlternation ''bc'' 0
     = Inr (ConcatenationPattern (SymbolPattern CHR ''b'') (SymbolPattern CHR ''c''), 2) \<and>
   ((\<forall>x\<in>set (c # w). ordinary x) \<and>
    (rest = [] \<or> hd rest = CHR ''|'' \<or> hd rest = CHR '')'') \<longrightarrow>
      parseConcatenation (pre @ c # w @ rest) (length pre)
        = Inr (foldl ConcatenationPattern (SymbolPattern c) (map SymbolPattern w),
               length pre + 1 + length w)) \<and>
   ((\<forall>x\<in>set (c # w). ordinary x) \<and> rest \<noteq> [] \<and> \<not> ordinary (hd rest) \<and>
    hd rest \<noteq> CHR 0x00 \<and> hd rest \<noteq> CHR ''|'' \<and> hd rest \<noteq> CHR '')'' \<longrightarrow>
      parseConcatenation (pre @ c # w @ rest) (length pre) = Inl InvalidPattern)"
  using parseAlternation_b parseAlternation_bc
    parseConcatenation_run [of c w rest pre] parseConcatenation_run_fail [of c w rest pre]
  by blast

theorem parseConcatenation_left_nested_witness:
  "parseConcatenation ''xab|c'' 1
     = Inr (ConcatenationPattern (SymbolPattern CHR ''a'') (SymbolPattern CHR ''b''), 3) \<and>
   parseConcatenation ''ab*'' 0 = Inl InvalidPattern"
proof -
  have o: "\<forall>x\<in>set (CHR ''a'' # [CHR ''b'']). ordinary x"
    by (simp add: ordinary_iff)
  have "parseConcatenation ([CHR ''x''] @ CHR ''a'' # [CHR ''b''] @ ''|c'') (length [CHR ''x''])
     = Inr (foldl ConcatenationPattern (SymbolPattern CHR ''a'') (map SymbolPattern [CHR ''b'']),
            length [CHR ''x''] + 1 + length [CHR ''b''])"
    using parseConcatenation_left_nested [of "CHR ''a''" "[CHR ''b'']" "''|c''" "[CHR ''x'']"] o by simp
  moreover have "parseConcatenation ([] @ CHR ''a'' # [CHR ''b''] @ ''*'') (length ([] :: string))
     = Inl InvalidPattern"
    using parseConcatenation_left_nested [of "CHR ''a''" "[CHR ''b'']" "''*''" "[]"] o by (simp add: ordinary_iff)
  ultimately show ?thesis by simp
qed

text \<open>
  C6. A pattern that begins with \<open>*\<close>, \<open>+\<close> or \<open>|\<close> is rejected as an invalid pattern: the parser
  fails with \<open>InvalidPattern\<close> and returns no pattern tree, because the atomic level has no
  production for a metacharacter, and the check of the first character in \<open>main\<close> rejects it
  as well.
\<close>

theorem leading_metacharacter_rejected:
  assumes "c = CHR ''*'' \<or> c = CHR ''+'' \<or> c = CHR ''|''"
  shows "parseAlternation (c # s) 0 = Inl InvalidPattern \<and>
         main_checkPattern (c # s) = Inl InvalidPattern"
proof -
  have "cstr_at (c # s) 0 = c" by (simp add: cstr_at_def)
  moreover have "\<not> ordinary c" using assms by (auto simp: ordinary_iff)
  ultimately have "parseAlternation (c # s) 0 = Inl InvalidPattern"
    by (simp add: parseAlternation_not_ordinary)
  moreover have "main_checkPattern (c # s) = Inl InvalidPattern"
    using assms \<open>cstr_at (c # s) 0 = c\<close> by (auto simp: main_checkPattern_def)
  ultimately show ?thesis by simp
qed

theorem leading_metacharacter_rejected_witness:
  "parseAlternation ''*'' 0 = Inl InvalidPattern \<and>
   parseAlternation ''+'' 0 = Inl InvalidPattern \<and>
   parseAlternation ''|'' 0 = Inl InvalidPattern \<and>
   main_checkPattern ''*a'' = Inl InvalidPattern"
  using leading_metacharacter_rejected [of "CHR ''*''" "[]"] leading_metacharacter_rejected [of "CHR ''+''" "[]"] leading_metacharacter_rejected [of "CHR ''|''" "[]"]
    leading_metacharacter_rejected [of "CHR ''*''" "''a''"]
  by simp

text \<open>
  C7. A pattern string whose net count of \<open>[\<close>, \<open>(\<close>, \<open>{\<close> against \<open>]\<close>, \<open>)\<close>, \<open>}\<close> is not zero is
  rejected as an invalid pattern by the check in \<open>main\<close>, which runs before any parsing. The
  parsing functions count nothing: they reject a pattern where a metacharacter stands in
  the place of an atomic pattern, so a pattern in which an opening \<open>(\<close>, \<open>[\<close> or \<open>{\<close> is preceded
  by ordinary characters only fails with \<open>InvalidPattern\<close>. In particular \<open>"(b"\<close> is rejected
  both by the check in \<open>main\<close> and by the parser.
\<close>

theorem unbalanced_nesting_rejected:
  "(spec_netCount arg \<noteq> 0 \<longrightarrow> main_checkPattern arg = Inl InvalidPattern) \<and>
   ((\<forall>x\<in>set w. ordinary x) \<and> (b = CHR ''('' \<or> b = CHR ''['' \<or> b = CHR ''{'') \<longrightarrow>
      parseAlternation (w @ b # rest) 0 = Inl InvalidPattern) \<and>
   main_checkPattern ''(b'' = Inl InvalidPattern \<and>
   parseAlternation ''(b'' 0 = Inl InvalidPattern"
proof -
  have chk: "spec_netCount arg \<noteq> 0 \<longrightarrow> main_checkPattern arg = Inl InvalidPattern" for arg
    by (simp add: main_checkPattern_def main_countLoop_netCount)
  have par: "parseAlternation (w @ b # rest) 0 = Inl InvalidPattern"
    if w: "\<forall>x\<in>set w. ordinary x" and b: "b = CHR ''('' \<or> b = CHR ''['' \<or> b = CHR ''{''"
    for w b rest
  proof (cases w)
    case Nil
    have "\<not> ordinary b" using b by (auto simp: ordinary_iff)
    then have "\<not> ordinary (cstr_at (w @ b # rest) 0)" using Nil by (simp add: cstr_at_def)
    then show ?thesis by (rule parseAlternation_not_ordinary)
  next
    case (Cons c w')
    have "parseConcatenation ([] @ c # w' @ b # rest) (length ([] :: string)) = Inl InvalidPattern"
    proof (rule parseConcatenation_run_fail)
      show "\<forall>x\<in>set (c # w'). ordinary x" using w Cons by simp
      show "b # rest \<noteq> []" by simp
      show "\<not> ordinary (hd (b # rest))" using b by (auto simp: ordinary_iff)
      show "hd (b # rest) \<noteq> CHR 0x00" using b by auto
      show "hd (b # rest) \<noteq> CHR ''|''" using b by auto
      show "hd (b # rest) \<noteq> CHR '')''" using b by auto
    qed
    then show ?thesis using Cons by (simp add: parseAlternation_def)
  qed
  have "spec_netCount ''(b'' \<noteq> 0" by (simp add: spec_netCount_def)
  then have m: "main_checkPattern ''(b'' = Inl InvalidPattern" using chk by blast
  have p: "parseAlternation ''(b'' 0 = Inl InvalidPattern"
    using par [of "[]" "CHR ''(''" "''b''"] by simp
  from chk par m p show ?thesis by blast
qed

theorem unbalanced_nesting_rejected_witness:
  "spec_netCount ''a{b]]'' = - 1 \<and> main_checkPattern ''a{b]]'' = Inl InvalidPattern \<and>
   parseAlternation ''ab[c'' 0 = Inl InvalidPattern"
proof -
  have n: "spec_netCount ''a{b]]'' = - 1" by (simp add: spec_netCount_def)
  then have "spec_netCount ''a{b]]'' \<noteq> 0" by simp
  then have m: "main_checkPattern ''a{b]]'' = Inl InvalidPattern"
    using unbalanced_nesting_rejected [of "''a{b]]''"] by blast
  have "\<forall>x\<in>set ''ab''. ordinary x" by (simp add: ordinary_iff)
  then have "parseAlternation (''ab'' @ CHR ''['' # ''c'') 0 = Inl InvalidPattern"
    using unbalanced_nesting_rejected [of _ "''ab''" "CHR ''[''" "''c''"] by blast
  with n m show ?thesis by simp
qed

text \<open>
  The parsing functions alone do not reject every pattern string with a net count other
  than zero: \<open>]\<close> and \<open>}\<close> are ordinary characters and \<open>)\<close> ends the concatenation level, so
  \<open>"a]"\<close>, \<open>"b)"\<close> and \<open>"}"\<close>, each with net count \<open>-1\<close>, are parsed to a pattern tree.
\<close>

theorem unbalanced_nesting_rejected_counterexample:
  "spec_netCount ''a]'' = - 1 \<and>
   parseAlternation ''a]'' 0
     = Inr (ConcatenationPattern (SymbolPattern CHR ''a'') (SymbolPattern CHR '']''), 2) \<and>
   spec_netCount ''b)'' = - 1 \<and>
   parseAlternation ''b)'' 0 = Inr (SymbolPattern CHR ''b'', 1) \<and>
   spec_netCount ''}'' = - 1 \<and>
   parseAlternation ''}'' 0 = Inr (SymbolPattern CHR ''}'', 1)"
proof -
  have n: "spec_netCount ''a]'' = - 1" "spec_netCount ''b)'' = - 1" "spec_netCount ''}'' = - 1"
    by (simp_all add: spec_netCount_def)
  have p1: "parseAlternation ''a]'' 0
     = Inr (ConcatenationPattern (SymbolPattern CHR ''a'') (SymbolPattern CHR '']''), 2)"
    using parseConcatenation_run [of "CHR ''a''" "[CHR '']'']" "[]" "[]"]
    by (simp add: parseAlternation_def ordinary_iff)
  have p2: "parseAlternation ''b)'' 0 = Inr (SymbolPattern CHR ''b'', 1)"
    using parseConcatenation_run [of "CHR ''b''" "[]" "'')''" "[]"]
    by (simp add: parseAlternation_def ordinary_iff)
  have p3: "parseAlternation ''}'' 0 = Inr (SymbolPattern CHR ''}'', 1)"
    using parseConcatenation_run [of "CHR ''}''" "[]" "[]" "[]"]
    by (simp add: parseAlternation_def ordinary_iff)
  from n p1 p2 p3 show ?thesis by simp
qed

text \<open>
  C9. The pattern \<open>"b"\<close> parses to the symbol node for \<open>b\<close>; matching it against the line
  \<open>"abc"\<close> with the all-true \<open>before\<close> vector sets only the mark at boundary position 2,
  immediately after the \<open>b\<close>; and \<open>reportMarks\<close> prints this result as \<open>" a b*c "\<close> followed by a
  newline: one mark slot before every character and one for the end of the line, with the
  \<open>*\<close> in the slot directly before the third character \<open>c\<close>.
\<close>

theorem match_b_abc_report:
  assumes "length after = 4"
  shows "parseAlternation ''b'' 0 = Inr (SymbolPattern CHR ''b'', 1) \<and>
         match (SymbolPattern CHR ''b'') 3 ''abc'' [True, True, True, True] after
           = [False, False, True, False] \<and>
         reportMarks ''abc''
            (match (SymbolPattern CHR ''b'') 3 ''abc'' [True, True, True, True] after)
           = '' a b*c '' @ [CHR 0x0A]"
  using parseAlternation_b match_b_abc [OF assms] reportMarks_abc by simp

theorem match_b_abc_report_witness:
  "reportMarks ''abc''
     (match (SymbolPattern CHR ''b'') 3 ''abc'' [True, True, True, True]
        [True, True, True, True])
   = '' a b*c '' @ [CHR 0x0A]"
proof -
  have "length [True, True, True, True] = 4" by simp
  from match_b_abc_report [OF this] show ?thesis by blast
qed

text \<open>
  The output stated in the specification for this scenario, \<open>" a*bc"\<close>, is not what
  \<open>reportMarks\<close> prints, with or without the final newline.
\<close>

theorem match_b_abc_report_counterexample:
  "reportMarks ''abc''
     (match (SymbolPattern CHR ''b'') 3 ''abc'' [True, True, True, True]
        [False, False, False, False])
   \<noteq> '' a*bc'' \<and>
   reportMarks ''abc''
     (match (SymbolPattern CHR ''b'') 3 ''abc'' [True, True, True, True]
        [False, False, False, False])
   \<noteq> '' a*bc'' @ [CHR 0x0A]"
proof -
  have "match (SymbolPattern CHR ''b'') 3 ''abc'' [True, True, True, True]
          [False, False, False, False] = [False, False, True, False]"
    by (rule match_b_abc) simp
  then show ?thesis by (simp add: reportMarks_abc)
qed

text \<open>
  C10. Parsing the empty pattern string fails with \<open>InvalidPattern\<close>: the character under
  the cursor is the terminating NUL, which \<open>strchr\<close> finds at the terminator of the
  metacharacter list (offset 11), so \<open>ordinary\<close> is false for it and the atomic level rejects
  it. The same holds whenever the cursor is at the end of the string, so the parser never
  reads past the terminator.
\<close>

theorem empty_pattern_rejected:
  "strchr ''.^$*?+|()[{'' (CHR 0x00) = Some 11 \<and>
   \<not> ordinary (cstr_at str (length str)) \<and>
   parseAtomicPattern str (length str) = Inl InvalidPattern \<and>
   parseAlternation '''' 0 = Inl InvalidPattern"
proof -
  have a: "strchr ''.^$*?+|()[{'' (CHR 0x00) = Some 11" by simp
  have b: "\<not> ordinary (cstr_at str (length str))" for str
    by (simp add: cstr_at_end ordinary_iff)
  have c: "parseAtomicPattern str (length str) = Inl InvalidPattern"
    using b [of str] by (simp add: parseAtomicPattern_def)
  have d: "parseAlternation '''' 0 = Inl InvalidPattern"
    using b [of "''''"] parseAlternation_not_ordinary [of "''''" 0] by simp
  from a b c d show ?thesis by blast
qed

end
